theory Spec2Isabelle
  imports Main "HOL-Library.AList"
begin

section \<open>Data model\<close>

text \<open>
  The crossword generator of \<^verbatim>\<open>pset3/crossword/generate.py\<close> and its helpers in
  \<^verbatim>\<open>helpers.py\<close>. A slot is a \<^verbatim>\<open>Variable\<close> with fields \<^verbatim>\<open>i\<close>, \<^verbatim>\<open>j\<close>,
  \<^verbatim>\<open>direction\<close> and \<^verbatim>\<open>length\<close>; the fields carry the prefix \<open>var_\<close> here, since
  \<open>length\<close> is the length of a list in HOL.
\<close>

datatype direction = ACROSS | DOWN

record variable =
  var_i :: nat
  var_j :: nat
  var_direction :: direction
  var_length :: nat

text \<open>The exceptions the Python code can raise: a missing dictionary key, an index
  out of range, and subscripting \<^verbatim>\<open>None\<close>.\<close>

datatype error = KeyError | IndexError | TypeError

type_synonym arc = "variable \<times> variable"

type_synonym overlap = "(nat \<times> nat) option"

text \<open>
  A Python dictionary is an association list in insertion order, read with
  \<^const>\<open>map_of\<close> and written with \<^const>\<open>AList.update\<close>. A Python set is a list, in
  the order the set is iterated and so without repetitions; what is proved about a set's contents is stated
  on \<^const>\<open>set\<close> of that list.

  The class \<^verbatim>\<open>Crossword\<close> is not among the sources: its attributes
  \<^verbatim>\<open>variables\<close>, \<^verbatim>\<open>words\<close> and \<^verbatim>\<open>overlaps\<close> are the fields of a record and
  arbitrary. An entry of \<^verbatim>\<open>overlaps\<close> is \<^verbatim>\<open>None\<close> or a pair of offsets.
\<close>

record crossword =
  variables :: "variable list"
  words :: "string list"
  overlaps :: "(arc \<times> overlap) list"

type_synonym domains = "(variable \<times> string list) list"

type_synonym assignment = "(variable \<times> string) list"

type_synonym queue = "(arc \<times> overlap) list"

text \<open>\<^verbatim>\<open>d[k]\<close> raises \<^verbatim>\<open>KeyError\<close> on a missing key; \<^verbatim>\<open>w[k]\<close> raises
  \<^verbatim>\<open>IndexError\<close> at or beyond the length of the word.\<close>

definition getitem :: "('k \<times> 'v) list \<Rightarrow> 'k \<Rightarrow> error + 'v" where
  "getitem d k = (case map_of d k of None \<Rightarrow> Inl KeyError | Some v \<Rightarrow> Inr v)"

definition char_at :: "string \<Rightarrow> nat \<Rightarrow> error + char" where
  "char_at w k = (if k < length w then Inr (w ! k) else Inl IndexError)"

text \<open>\<^verbatim>\<open>__init__\<close>: every slot starts with a copy of the whole word list.\<close>

definition init_domains :: "crossword \<Rightarrow> domains" where
  "init_domains c = map (\<lambda>var. (var, words c)) (variables c)"

text \<open>
  Modelled from the spec: \<^verbatim>\<open>Crossword.neighbors\<close> is not among the sources. Two
  slots are neighbours when they have an overlap entry that is defined: the
  neighbours of \<open>var\<close> are the other slots \<open>v\<close> of the crossword whose entry for
  \<open>(v, var)\<close> is a pair of offsets.
\<close>

definition neighbors :: "crossword \<Rightarrow> variable \<Rightarrow> variable list" where
  "neighbors c var =
     filter (\<lambda>v. v \<noteq> var \<and>
                 (case map_of (overlaps c) (v, var) of
                    Some (Some ov) \<Rightarrow> True
                  | _ \<Rightarrow> False))
            (variables c)"

section \<open>Node consistency\<close>

text \<open>
  The inner loop of \<^verbatim>\<open>enforce_node_consistency\<close> runs over a copy of the slot's
  set and removes from the set itself every word of the wrong length. The word
  removed is taken from the copy, so \<^verbatim>\<open>remove\<close> finds it.
\<close>

fun remove_mismatched :: "variable \<Rightarrow> string list \<Rightarrow> string list \<Rightarrow> string list" where
  "remove_mismatched key [] ws = ws"
| "remove_mismatched key (domain # rest) ws =
     (if var_length key \<noteq> length domain
      then remove_mismatched key rest (removeAll domain ws)
      else remove_mismatched key rest ws)"

definition enforce_node_consistency :: "domains \<Rightarrow> domains" where
  "enforce_node_consistency d =
     map (\<lambda>(key, ws). (key, remove_mismatched key ws ws)) d"

section \<open>Arc consistency: revise\<close>

text \<open>
  The inner loop of \<^verbatim>\<open>revise\<close>: \<open>found\<close> becomes true when some word of the other
  domain is long enough, differs from \<open>domainX\<close> and carries the same character
  at the overlap. The loop has no \<^verbatim>\<open>break\<close>. Python's \<^verbatim>\<open>and\<close> evaluates its
  right operand only when the left one holds.
\<close>

fun revise_found :: "nat \<Rightarrow> nat \<Rightarrow> string \<Rightarrow> string list \<Rightarrow> bool \<Rightarrow> error + bool" where
  "revise_found charX charY domainX [] found = Inr found"
| "revise_found charX charY domainX (domainY # rest) found =
     (if length domainY > charY \<and> length domainX > charX then
        (if domainX \<noteq> domainY then
           (case char_at domainX charX of
              Inl e \<Rightarrow> Inl e
            | Inr a \<Rightarrow>
               (case char_at domainY charY of
                  Inl e \<Rightarrow> Inl e
                | Inr b \<Rightarrow>
                   revise_found charX charY domainX rest (if a = b then True else found)))
         else revise_found charX charY domainX rest found)
      else revise_found charX charY domainX rest found)"

text \<open>
  The outer loop runs over a copy of \<^verbatim>\<open>self.domains[x]\<close>; the copy is the fifth
  argument, the domains as they stand are the sixth.
\<close>

fun revise_loop ::
  "nat \<Rightarrow> nat \<Rightarrow> variable \<Rightarrow> variable \<Rightarrow> string list \<Rightarrow> domains \<Rightarrow> bool
     \<Rightarrow> error + (bool \<times> domains)" where
  "revise_loop charX charY x y [] d revised = Inr (revised, d)"
| "revise_loop charX charY x y (domainX # rest) d revised =
     (case getitem d y of
        Inl e \<Rightarrow> Inl e
      | Inr dy \<Rightarrow>
         (case revise_found charX charY domainX dy False of
            Inl e \<Rightarrow> Inl e
          | Inr found \<Rightarrow>
             (if \<not> found then
                (case getitem d x of
                   Inl e \<Rightarrow> Inl e
                 | Inr dx \<Rightarrow>
                    revise_loop charX charY x y rest
                      (AList.update x (removeAll domainX dx) d) True)
              else revise_loop charX charY x y rest d revised)))"

definition revise :: "crossword \<Rightarrow> domains \<Rightarrow> variable \<Rightarrow> variable \<Rightarrow> error + (bool \<times> domains)" where
  "revise c d x y =
     (case getitem (overlaps c) (x, y) of
        Inl e \<Rightarrow> Inl e
      | Inr None \<Rightarrow> Inr (False, d)
      | Inr (Some (charX, charY)) \<Rightarrow>
         (case getitem d x of
            Inl e \<Rightarrow> Inl e
          | Inr dx \<Rightarrow> revise_loop charX charY x y dx d False))"

section \<open>Arc consistency: the worklist\<close>

text \<open>
  \<^verbatim>\<open>removeNone\<close> of \<^verbatim>\<open>helpers.py\<close> runs over a copy of the keys and deletes every
  key whose entry is \<^verbatim>\<open>None\<close>. \<^verbatim>\<open>deQueue\<close> deletes the first key of the dictionary
  and returns it; on an empty dictionary its loop body never runs and it returns
  \<^verbatim>\<open>None\<close>.
\<close>

fun removeNone_loop :: "arc list \<Rightarrow> queue \<Rightarrow> queue" where
  "removeNone_loop [] queue = queue"
| "removeNone_loop (key # rest) queue =
     (if map_of queue key = Some None
      then removeNone_loop rest (AList.delete key queue)
      else removeNone_loop rest queue)"

definition removeNone :: "queue \<Rightarrow> queue" where
  "removeNone queue = removeNone_loop (map fst queue) queue"

definition deQueue :: "queue \<Rightarrow> arc option \<times> queue" where
  "deQueue queue =
     (case queue of
        [] \<Rightarrow> (None, queue)
      | (item, ov) # rest \<Rightarrow> (Some item, AList.delete item queue))"

text \<open>The loop of \<^verbatim>\<open>ac3\<close> over the neighbours \<open>z\<close> of \<open>x = arc[0]\<close>, with
  \<open>y = arc[1]\<close>: every arc \<open>(z, x)\<close> with \<open>z \<noteq> y\<close> is put on the queue.\<close>

fun enqueue_neighbors ::
  "crossword \<Rightarrow> variable \<Rightarrow> variable \<Rightarrow> variable list \<Rightarrow> queue \<Rightarrow> error + queue" where
  "enqueue_neighbors c x y [] queue = Inr queue"
| "enqueue_neighbors c x y (z # zs) queue =
     (if z = y then enqueue_neighbors c x y zs queue
      else
        (case getitem (overlaps c) (z, x) of
           Inl e \<Rightarrow> Inl e
         | Inr ov \<Rightarrow> enqueue_neighbors c x y zs (AList.update (z, x) ov queue)))"

text \<open>The sum of the sizes of all domains: the total candidate count.\<close>

definition domains_size :: "domains \<Rightarrow> nat" where
  "domains_size d = sum_list (map (\<lambda>(key, ws). length ws) d)"

text \<open>A revision that reports a change has removed a word; one that reports none
  has left the domains as they were. Both facts carry the termination of the
  worklist loop.\<close>

lemma getitem_Inr: "getitem d k = Inr v \<longleftrightarrow> map_of d k = Some v"
  by (simp add: getitem_def split: option.splits)

lemma getitem_Inl: "getitem d k = Inl e \<longleftrightarrow> map_of d k = None \<and> e = KeyError"
  by (auto simp: getitem_def split: option.splits)

lemma revise_found_eq:
  "revise_found cx cy w ys found =
     Inr (found \<or> (\<exists>w' \<in> set ys. cy < length w' \<and> cx < length w \<and> w \<noteq> w' \<and> w ! cx = w' ! cy))"
  by (induction ys arbitrary: found) (auto simp: char_at_def)

lemma domains_size_update:
  "map_of d x = Some ws \<Longrightarrow>
     domains_size (AList.update x ws' d) + length ws = domains_size d + length ws'"
  by (induction d) (auto simp: domains_size_def)

lemma domains_size_remove_le:
  assumes "map_of d x = Some ws"
  shows "domains_size (AList.update x (removeAll w ws) d) \<le> domains_size d"
  using domains_size_update [OF assms, of "removeAll w ws"] length_removeAll_less_eq [of w ws]
  by linarith

lemma domains_size_remove_less:
  assumes "map_of d x = Some ws" "w \<in> set ws"
  shows "domains_size (AList.update x (removeAll w ws) d) < domains_size d"
  using domains_size_update [OF assms(1), of "removeAll w ws"] length_removeAll_less [OF assms(2)]
  by linarith

lemma revise_loop_size_le:
  "revise_loop cx cy x y copy d revised = Inr (b, d') \<Longrightarrow> domains_size d' \<le> domains_size d"
proof (induction copy arbitrary: d revised)
  case Nil
  then show ?case by simp
next
  case (Cons w copy)
  then show ?case
    by (auto simp: getitem_Inr revise_found_eq split: sum.splits if_splits
        dest!: Cons.IH intro: order_trans [OF _ domains_size_remove_le])
qed

lemma revise_loop_unrevised:
  "revise_loop cx cy x y copy d revised = Inr (False, d') \<Longrightarrow> d' = d \<and> \<not> revised"
  by (induction copy arbitrary: d revised)
     (auto simp: getitem_Inr revise_found_eq split: sum.splits if_splits)

lemma revise_loop_size_less:
  "revise_loop cx cy x y copy d False = Inr (True, d') \<Longrightarrow> map_of d x = Some dx \<Longrightarrow>
     set copy \<subseteq> set dx \<Longrightarrow> domains_size d' < domains_size d"
proof (induction copy)
  case Nil
  then show ?case by simp
next
  case (Cons w copy)
  show ?case
  proof (cases "revise_loop cx cy x y copy d False = Inr (True, d')")
    case True
    with Cons show ?thesis by simp
  next
    case False
    with Cons.prems(1)
    have "revise_loop cx cy x y copy (AList.update x (removeAll w dx) d) True = Inr (True, d')"
      using Cons.prems(2)
      by (auto simp: getitem_Inr revise_found_eq split: sum.splits if_splits)
    from revise_loop_size_le [OF this]
    have "domains_size d' \<le> domains_size (AList.update x (removeAll w dx) d)" .
    also have "\<dots> < domains_size d"
      using Cons.prems by (intro domains_size_remove_less) auto
    finally show ?thesis .
  qed
qed

lemma revise_unrevised: "revise c d x y = Inr (False, d') \<Longrightarrow> d' = d"
  by (auto simp: revise_def getitem_Inr split: sum.splits option.splits dest: revise_loop_unrevised)

lemma revise_size_less: "revise c d x y = Inr (True, d') \<Longrightarrow> domains_size d' < domains_size d"
  by (auto simp: revise_def getitem_Inr split: sum.splits option.splits
      dest: revise_loop_size_less)

lemma length_delete_hd: "length (AList.delete k ((k, v) # q)) < Suc (length q)"
  by (simp add: less_Suc_eq_le length_delete_le)

lemma deQueue_Some: "(Some arc, queue1) = deQueue queue \<Longrightarrow> length queue1 < length queue"
  by (auto simp: deQueue_def less_Suc_eq_le length_delete_le split: list.splits)

text \<open>
  The loop of \<^verbatim>\<open>ac3\<close>. The last argument counts the revisions that changed a
  domain (the productive ones); the Python code keeps no such count, and nothing
  in the loop reads it. When \<^verbatim>\<open>deQueue\<close> returns \<^verbatim>\<open>None\<close>, \<^verbatim>\<open>arc[0]\<close> raises.
\<close>

function ac3_loop :: "crossword \<Rightarrow> queue \<Rightarrow> domains \<Rightarrow> nat \<Rightarrow> error + (bool \<times> domains \<times> nat)" where
  "ac3_loop c queue d n =
     (if queue = [] then Inr (True, d, n)
      else
        (case deQueue queue of
           (None, queue1) \<Rightarrow> Inl TypeError
         | (Some arc, queue1) \<Rightarrow>
            (case revise c d (fst arc) (snd arc) of
               Inl e \<Rightarrow> Inl e
             | Inr (revised, d1) \<Rightarrow>
                (if revised then
                   (case getitem d1 (fst arc) of
                      Inl e \<Rightarrow> Inl e
                    | Inr dx \<Rightarrow>
                       (if length dx = 0 then Inr (False, d1, Suc n)
                        else
                          (case enqueue_neighbors c (fst arc) (snd arc)
                                  (neighbors c (fst arc)) queue1 of
                             Inl e \<Rightarrow> Inl e
                           | Inr queue2 \<Rightarrow> ac3_loop c queue2 d1 (Suc n))))
                 else ac3_loop c queue1 d1 n))))"
  by pat_completeness auto
termination
proof (relation "measures [\<lambda>(c, queue, d, n). domains_size d, \<lambda>(c, queue, d, n). length queue]", goal_cases)
  case 1
  then show ?case by simp
next
  case (2 c queue d n x1 x2 arc y yb ya z yc)
  then show ?case by (auto dest: revise_size_less)
next
  case (3 c queue d n x1 x2 arc y yb ya)
  then show ?case by (auto dest: revise_unrevised deQueue_Some)
qed

text \<open>\<^verbatim>\<open>ac3(arcs)\<close>: without \<open>arcs\<close> the queue is a copy of all overlaps that are
  not \<^verbatim>\<open>None\<close>. The queue is compared with \<^verbatim>\<open>{}\<close> and its keys are deleted, so
  \<open>arcs\<close>, when given, is a dictionary from arcs to overlaps as well.\<close>

definition ac3 :: "crossword \<Rightarrow> domains \<Rightarrow> queue option \<Rightarrow> error + (bool \<times> domains \<times> nat)" where
  "ac3 c d arcs =
     (case arcs of
        None \<Rightarrow> ac3_loop c (removeNone (overlaps c)) d 0
      | Some queue \<Rightarrow> ac3_loop c queue d 0)"

section \<open>Consistency checker\<close>

text \<open>
  \<^verbatim>\<open>assignment_complete\<close>: as many keys as the crossword has slots, and no value
  \<^verbatim>\<open>None\<close>; a value of an assignment is a word here, so the second test holds.
\<close>

definition assignment_complete :: "crossword \<Rightarrow> assignment \<Rightarrow> bool" where
  "assignment_complete c a = (length a = length (variables c))"

text \<open>
  The inner loop of \<^verbatim>\<open>consistent\<close> over the neighbours of \<open>key\<close>: \<^verbatim>\<open>Inr False\<close> is
  the early \<^verbatim>\<open>return False\<close>. The overlap entry is subscripted without a test
  for \<^verbatim>\<open>None\<close>, and the two words without a test of their lengths.
\<close>

fun consistent_neighbors ::
  "crossword \<Rightarrow> assignment \<Rightarrow> variable \<Rightarrow> variable list \<Rightarrow> error + bool" where
  "consistent_neighbors c a key [] = Inr True"
| "consistent_neighbors c a key (neighbor # rest) =
     (if map_of a neighbor \<noteq> None then
        (case getitem (overlaps c) (key, neighbor) of
           Inl e \<Rightarrow> Inl e
         | Inr None \<Rightarrow> Inl TypeError
         | Inr (Some (o0, o1)) \<Rightarrow>
            (case getitem a key of
               Inl e \<Rightarrow> Inl e
             | Inr wk \<Rightarrow>
                (case char_at wk o0 of
                   Inl e \<Rightarrow> Inl e
                 | Inr ck \<Rightarrow>
                    (case getitem a neighbor of
                       Inl e \<Rightarrow> Inl e
                     | Inr wn \<Rightarrow>
                        (case char_at wn o1 of
                           Inl e \<Rightarrow> Inl e
                         | Inr cn \<Rightarrow>
                            (if ck \<noteq> cn then Inr False
                             else consistent_neighbors c a key rest))))))
      else consistent_neighbors c a key rest)"

text \<open>The loop over the keys of the assignment; the last argument is the set
  \<^verbatim>\<open>words\<close> of the words seen so far.\<close>

fun consistent_loop ::
  "crossword \<Rightarrow> assignment \<Rightarrow> variable list \<Rightarrow> string list \<Rightarrow> error + bool" where
  "consistent_loop c a [] seen = Inr True"
| "consistent_loop c a (key # rest) seen =
     (case getitem a key of
        Inl e \<Rightarrow> Inl e
      | Inr w \<Rightarrow>
         (if length w \<noteq> var_length key then Inr False
          else if w \<in> set seen then Inr False
          else
            (case consistent_neighbors c a key (neighbors c key) of
               Inl e \<Rightarrow> Inl e
             | Inr ok \<Rightarrow>
                (if \<not> ok then Inr False
                 else consistent_loop c a rest (w # seen)))))"

definition consistent :: "crossword \<Rightarrow> assignment \<Rightarrow> error + bool" where
  "consistent c a = consistent_loop c a (map fst a) []"

section \<open>Heuristics\<close>

text \<open>
  \<^verbatim>\<open>order_domain_values\<close>: \<open>rulesOut\<close> counts the neighbours whose domain holds
  the value itself. The dictionary \<^verbatim>\<open>order\<close> is sorted by its counts;
  \<^verbatim>\<open>sorted\<close> is stable, as \<^const>\<open>sort_key\<close> is.
\<close>

fun rules_out :: "domains \<Rightarrow> string \<Rightarrow> variable list \<Rightarrow> nat \<Rightarrow> error + nat" where
  "rules_out d val [] rulesOut = Inr rulesOut"
| "rules_out d val (neighbor # rest) rulesOut =
     (case getitem d neighbor of
        Inl e \<Rightarrow> Inl e
      | Inr dn \<Rightarrow> rules_out d val rest (if val \<in> set dn then rulesOut + 1 else rulesOut))"

fun order_loop ::
  "crossword \<Rightarrow> domains \<Rightarrow> variable \<Rightarrow> string list \<Rightarrow> (string \<times> nat) list
     \<Rightarrow> error + (string \<times> nat) list" where
  "order_loop c d var [] order = Inr order"
| "order_loop c d var (val # rest) order =
     (case rules_out d val (neighbors c var) 0 of
        Inl e \<Rightarrow> Inl e
      | Inr rulesOut \<Rightarrow> order_loop c d var rest (AList.update val rulesOut order))"

definition order_domain_values ::
  "crossword \<Rightarrow> domains \<Rightarrow> variable \<Rightarrow> assignment \<Rightarrow> error + string list" where
  "order_domain_values c d var a =
     (case getitem d var of
        Inl e \<Rightarrow> Inl e
      | Inr dv \<Rightarrow>
         (case order_loop c d var dv [] of
            Inl e \<Rightarrow> Inl e
          | Inr order \<Rightarrow> Inr (map fst (sort_key snd order))))"

text \<open>
  \<^verbatim>\<open>select_unassigned_variable\<close>: the slots not in the assignment, each with the
  size of its domain, sorted by that size; the first one is returned.
  \<^verbatim>\<open>variables is not None\<close> always holds, so on an empty dictionary
  \<^verbatim>\<open>sorted_variables[0]\<close> raises.
\<close>

fun select_loop ::
  "domains \<Rightarrow> assignment \<Rightarrow> variable list \<Rightarrow> (variable \<times> nat) list
     \<Rightarrow> error + (variable \<times> nat) list" where
  "select_loop d a [] vs = Inr vs"
| "select_loop d a (v # rest) vs =
     (if map_of a v = None then
        (case getitem d v of
           Inl e \<Rightarrow> Inl e
         | Inr dv \<Rightarrow> select_loop d a rest (AList.update v (length dv) vs))
      else select_loop d a rest vs)"

definition select_unassigned_variable ::
  "crossword \<Rightarrow> domains \<Rightarrow> assignment \<Rightarrow> error + variable" where
  "select_unassigned_variable c d a =
     (case select_loop d a (variables c) [] of
        Inl e \<Rightarrow> Inl e
      | Inr vs \<Rightarrow>
         (case sort_key snd vs of
            [] \<Rightarrow> Inl IndexError
          | (v, n) # rest \<Rightarrow> Inr v))"

section \<open>Backtracking search\<close>

text \<open>
  The two loops around the call of \<^verbatim>\<open>ac3\<close> in \<^verbatim>\<open>backtrack\<close>: the first removes
  from the domain of \<open>var\<close> every word but \<open>val\<close> and records it in
  \<^verbatim>\<open>inferenceValues\<close>, the second adds the recorded words again.
\<close>

fun restrict_loop ::
  "variable \<Rightarrow> string \<Rightarrow> string list \<Rightarrow> domains \<Rightarrow> string list
     \<Rightarrow> error + (string list \<times> domains)" where
  "restrict_loop var val [] d inferenceValues = Inr (inferenceValues, d)"
| "restrict_loop var val (oldValue # rest) d inferenceValues =
     (if oldValue \<noteq> val then
        (case getitem d var of
           Inl e \<Rightarrow> Inl e
         | Inr dv \<Rightarrow>
            restrict_loop var val rest (AList.update var (removeAll oldValue dv) d)
              (inferenceValues @ [oldValue]))
      else restrict_loop var val rest d inferenceValues)"

fun restore_loop :: "variable \<Rightarrow> string list \<Rightarrow> domains \<Rightarrow> error + domains" where
  "restore_loop var [] d = Inr d"
| "restore_loop var (oldValue # rest) d =
     (case getitem d var of
        Inl e \<Rightarrow> Inl e
      | Inr dv \<Rightarrow>
         restore_loop var rest
           (AList.update var (if oldValue \<in> set dv then dv else dv @ [oldValue]) d))"

definition undo_inference ::
  "variable \<Rightarrow> string list \<Rightarrow> domains \<Rightarrow> nat \<Rightarrow> error + (assignment option \<times> domains \<times> nat)" where
  "undo_inference var inferenceValues d n =
     (case restore_loop var inferenceValues d of
        Inl e \<Rightarrow> Inl e
      | Inr d4 \<Rightarrow> Inr (None, d4, n))"

text \<open>
  The loop over the candidates: \<open>body\<close> tries one candidate in the domains as
  they stand and returns a result, the domains it leaves and the number of
  frames of \<^verbatim>\<open>backtrack\<close> it entered. The first result that is not \<^verbatim>\<open>None\<close> is
  returned at once.
\<close>

fun for_values ::
  "('v \<Rightarrow> 's \<Rightarrow> error + ('r option \<times> 's \<times> nat)) \<Rightarrow> 'v list \<Rightarrow> 's
     \<Rightarrow> error + ('r option \<times> 's \<times> nat)" where
  "for_values body [] s = Inr (None, s, 0)"
| "for_values body (v # vs) s =
     (case body v s of
        Inl e \<Rightarrow> Inl e
      | Inr (Some r, s1, n) \<Rightarrow> Inr (Some r, s1, n)
      | Inr (None, s1, n) \<Rightarrow>
         (case for_values body vs s1 of
            Inl e \<Rightarrow> Inl e
          | Inr (r, s2, m) \<Rightarrow> Inr (r, s2, n + m)))"

lemma for_values_cong [fundef_cong]:
  "vs = vs' \<Longrightarrow> s = s' \<Longrightarrow> (\<And>v t. v \<in> set vs' \<Longrightarrow> body v t = body' v t) \<Longrightarrow>
     for_values body vs s = for_values body' vs' s'"
proof (induction vs' arbitrary: vs s s')
  case Nil
  then show ?case by simp
next
  case (Cons v vs')
  then show ?case
    by (auto split: sum.splits option.splits prod.splits)
qed

text \<open>The slot selected is a slot of the crossword and has no word yet.\<close>

lemma select_loop_keys:
  "select_loop d a vars vs = Inr vs' \<Longrightarrow>
     fst ` set vs' \<subseteq> fst ` set vs \<union> {v \<in> set vars. map_of a v = None}"
proof (induction vars arbitrary: vs)
  case Nil
  then show ?case by simp
next
  case (Cons v vars)
  show ?case
  proof (cases "map_of a v = None")
    case True
    with Cons.prems obtain dv :: "string list" where
      "select_loop d a vars (AList.update v (length dv) vs) = Inr vs'"
      by (cases "getitem d v") auto
    from Cons.IH [OF this] True show ?thesis
      unfolding AList.dom_update by auto
  next
    case False
    with Cons.prems have "select_loop d a vars vs = Inr vs'" by simp
    from Cons.IH [OF this] show ?thesis by auto
  qed
qed

lemma select_unassigned_variable_unassigned:
  assumes "select_unassigned_variable c d a = Inr var"
  shows "var \<in> set (variables c) \<and> map_of a var = None"
proof -
  from assms obtain vs n rest where
    vs: "select_loop d a (variables c) [] = Inr vs" and s: "sort_key snd vs = (var, n) # rest"
    by (auto simp: select_unassigned_variable_def split: sum.splits list.splits)
  from s have "(var, n) \<in> set (sort_key snd vs)" by simp
  then have "var \<in> fst ` set vs" by force
  with select_loop_keys [OF vs] show ?thesis by auto
qed

text \<open>The number of slots without a word: it shrinks with every recursive call.\<close>

definition unassigned :: "crossword \<Rightarrow> assignment \<Rightarrow> nat" where
  "unassigned c a = length (filter (\<lambda>v. map_of a v = None) (variables c))"

lemma unassigned_update:
  assumes "var \<in> set (variables c)" "map_of a var = None"
  shows "unassigned c (AList.update var val a) < unassigned c a"
proof -
  have "length (filter (\<lambda>v. ((map_of a)(var \<mapsto> val)) v = None) vars)
          < length (filter (\<lambda>v. map_of a v = None) vars)"
    if "var \<in> set vars" for vars
    using that
  proof (induction vars)
    case Nil
    then show ?case by simp
  next
    case (Cons v vars)
    have le: "length (filter (\<lambda>v. ((map_of a)(var \<mapsto> val)) v = None) vars)
          \<le> length (filter (\<lambda>v. map_of a v = None) vars)" for vars
      by (induction vars) auto
    show ?case
    proof (cases "v = var")
      case True
      with assms(2) le [of vars] show ?thesis by (simp add: less_Suc_eq_le)
    next
      case False
      with Cons show ?thesis by auto
    qed
  qed
  with assms(1) show ?thesis
    by (simp add: unassigned_def update_conv')
qed

function backtrack ::
  "crossword \<Rightarrow> domains \<Rightarrow> assignment \<Rightarrow> error + (assignment option \<times> domains \<times> nat)" where
  "backtrack c d a =
     (if assignment_complete c a then Inr (Some a, d, 1)
      else
        (case select_unassigned_variable c d a of
           Inl e \<Rightarrow> Inl e
         | Inr var \<Rightarrow>
            (case order_domain_values c d var a of
               Inl e \<Rightarrow> Inl e
             | Inr vals \<Rightarrow>
                (case for_values
                        (\<lambda>val d0.
                           (case getitem d0 var of
                              Inl e \<Rightarrow> Inl e
                            | Inr dv \<Rightarrow>
                               (case restrict_loop var val dv d0 [] of
                                  Inl e \<Rightarrow> Inl e
                                | Inr (inferenceValues, d1) \<Rightarrow>
                                   (case ac3 c d1 None of
                                      Inl e \<Rightarrow> Inl e
                                    | Inr (ok, d2, revisions) \<Rightarrow>
                                       (if ok then
                                          (case consistent c (AList.update var val a) of
                                             Inl e \<Rightarrow> Inl e
                                           | Inr cons \<Rightarrow>
                                              (if cons then
                                                 (case backtrack c d2 (AList.update var val a) of
                                                    Inl e \<Rightarrow> Inl e
                                                  | Inr (Some result, d3, n) \<Rightarrow>
                                                     Inr (Some result, d3, n)
                                                  | Inr (None, d3, n) \<Rightarrow>
                                                     undo_inference var inferenceValues d3 n)
                                               else undo_inference var inferenceValues d2 0))
                                        else undo_inference var inferenceValues d2 0)))))
                        vals d of
                   Inl e \<Rightarrow> Inl e
                 | Inr (result, d5, n) \<Rightarrow> Inr (result, d5, Suc n)))))"
  by pat_completeness auto
termination
  by (relation "measure (\<lambda>(c, d, a). unassigned c a)")
     (auto dest!: select_unassigned_variable_unassigned intro: unassigned_update)

declare backtrack.simps [simp del]

text \<open>
  One pass of the loop of \<^verbatim>\<open>backtrack\<close>, for the candidate \<open>val\<close> of the slot
  \<open>var\<close> in the domains \<open>d0\<close>: the body of the loop above, by itself.
\<close>

definition try_value ::
  "crossword \<Rightarrow> assignment \<Rightarrow> variable \<Rightarrow> string \<Rightarrow> domains
     \<Rightarrow> error + (assignment option \<times> domains \<times> nat)" where
  "try_value c a var val d0 =
     (case getitem d0 var of
        Inl e \<Rightarrow> Inl e
      | Inr dv \<Rightarrow>
         (case restrict_loop var val dv d0 [] of
            Inl e \<Rightarrow> Inl e
          | Inr (inferenceValues, d1) \<Rightarrow>
             (case ac3 c d1 None of
                Inl e \<Rightarrow> Inl e
              | Inr (ok, d2, revisions) \<Rightarrow>
                 (if ok then
                    (case consistent c (AList.update var val a) of
                       Inl e \<Rightarrow> Inl e
                     | Inr cons \<Rightarrow>
                        (if cons then
                           (case backtrack c d2 (AList.update var val a) of
                              Inl e \<Rightarrow> Inl e
                            | Inr (Some result, d3, n) \<Rightarrow> Inr (Some result, d3, n)
                            | Inr (None, d3, n) \<Rightarrow> undo_inference var inferenceValues d3 n)
                         else undo_inference var inferenceValues d2 0))
                  else undo_inference var inferenceValues d2 0))))"

lemma backtrack_unfold:
  "backtrack c d a =
     (if assignment_complete c a then Inr (Some a, d, 1)
      else
        (case select_unassigned_variable c d a of
           Inl e \<Rightarrow> Inl e
         | Inr var \<Rightarrow>
            (case order_domain_values c d var a of
               Inl e \<Rightarrow> Inl e
             | Inr vals \<Rightarrow>
                (case for_values (try_value c a var) vals d of
                   Inl e \<Rightarrow> Inl e
                 | Inr (result, d5, n) \<Rightarrow> Inr (result, d5, Suc n)))))"
proof -
  have "try_value c a var = (\<lambda>val d0.
          (case getitem d0 var of
             Inl e \<Rightarrow> Inl e
           | Inr dv \<Rightarrow>
              (case restrict_loop var val dv d0 [] of
                 Inl e \<Rightarrow> Inl e
               | Inr (inferenceValues, d1) \<Rightarrow>
                  (case ac3 c d1 None of
                     Inl e \<Rightarrow> Inl e
                   | Inr (ok, d2, revisions) \<Rightarrow>
                      (if ok then
                         (case consistent c (AList.update var val a) of
                            Inl e \<Rightarrow> Inl e
                          | Inr cons \<Rightarrow>
                             (if cons then
                                (case backtrack c d2 (AList.update var val a) of
                                   Inl e \<Rightarrow> Inl e
                                 | Inr (Some result, d3, n) \<Rightarrow> Inr (Some result, d3, n)
                                 | Inr (None, d3, n) \<Rightarrow> undo_inference var inferenceValues d3 n)
                              else undo_inference var inferenceValues d2 0))
                       else undo_inference var inferenceValues d2 0)))))" for var
    by (intro ext) (simp only: try_value_def)
  then show ?thesis
    by (subst backtrack.simps) (simp only:)
qed

text \<open>
  \<^verbatim>\<open>solve\<close>, on the domains the object holds: node consistency, then \<^verbatim>\<open>ac3\<close>,
  whose result is not read, then \<^verbatim>\<open>backtrack\<close> on the empty assignment.
\<close>

definition solve :: "crossword \<Rightarrow> domains \<Rightarrow> error + (assignment option \<times> domains \<times> nat)" where
  "solve c d =
     (case ac3 c (enforce_node_consistency d) None of
        Inl e \<Rightarrow> Inl e
      | Inr (ok, d1, revisions) \<Rightarrow> backtrack c d1 [])"

section \<open>Example crosswords\<close>

text \<open>
  Every crossword below is the one its grid gives: the slots are the maximal runs
  of at least two open cells in a row or a column, and two slots overlap in the
  cell they share. The order of the slots, of the words and of the overlaps is
  one of the orders in which Python may iterate the sets.

  The corner: two rows of two cells with the lower right cell blocked. One slot
  runs across the top row, one down the left column, both of length two.
\<close>

definition corner_across :: variable where
  "corner_across = \<lparr>var_i = 0, var_j = 0, var_direction = ACROSS, var_length = 2\<rparr>"

definition corner_down :: variable where
  "corner_down = \<lparr>var_i = 0, var_j = 0, var_direction = DOWN, var_length = 2\<rparr>"

definition cross_aa :: crossword where
  "cross_aa =
     \<lparr>variables = [corner_across, corner_down], words = [''aa''],
      overlaps = [((corner_across, corner_down), Some (0, 0)),
                  ((corner_down, corner_across), Some (0, 0))]\<rparr>"

text \<open>
  The arch: three rows of three cells with the middle column blocked below the
  top row. \<open>slot_x\<close> runs across the top row, \<open>slot_y\<close> down the left column and
  \<open>slot_z\<close> down the right column, all of length three; \<open>slot_x\<close> meets \<open>slot_y\<close>
  in its first cell and \<open>slot_z\<close> in its third.
\<close>

definition slot_x :: variable where
  "slot_x = \<lparr>var_i = 0, var_j = 0, var_direction = ACROSS, var_length = 3\<rparr>"

definition slot_y :: variable where
  "slot_y = \<lparr>var_i = 0, var_j = 0, var_direction = DOWN, var_length = 3\<rparr>"

definition slot_z :: variable where
  "slot_z = \<lparr>var_i = 0, var_j = 2, var_direction = DOWN, var_length = 3\<rparr>"

definition overlaps3 :: "(arc \<times> overlap) list" where
  "overlaps3 =
     [((slot_x, slot_y), Some (0, 0)), ((slot_x, slot_z), Some (2, 0)),
      ((slot_y, slot_x), Some (0, 0)), ((slot_y, slot_z), None),
      ((slot_z, slot_x), Some (0, 2)), ((slot_z, slot_y), None)]"

text \<open>The arch with four words: no filling exists, since either word for \<open>slot_x\<close>
  leaves the same single word to both \<open>slot_y\<close> and \<open>slot_z\<close>.\<close>

definition cross3 :: crossword where
  "cross3 =
     \<lparr>variables = [slot_x, slot_y, slot_z], words = [''aca'', ''bcb'', ''apx'', ''bqx''],
      overlaps = overlaps3\<rparr>"

text \<open>The domains of \<open>cross3\<close> after node consistency and \<^verbatim>\<open>ac3\<close>.\<close>

definition domains3 :: domains where
  "domains3 =
     [(slot_x, [''aca'', ''bcb'']), (slot_y, [''apx'', ''bqx'']), (slot_z, [''apx'', ''bqx''])]"

text \<open>The same crossword with the slots iterated in another order.\<close>

definition cross3_yxz :: crossword where
  "cross3_yxz =
     \<lparr>variables = [slot_y, slot_x, slot_z], words = [''aca'', ''bcb'', ''apx'', ''bqx''],
      overlaps = overlaps3\<rparr>"

text \<open>
  The arch with six words. It has a filling: \<open>bcb\<close> across, \<open>bqx\<close> and \<open>brx\<close>
  down. \<open>domains6\<close> are its domains after node consistency and \<^verbatim>\<open>ac3\<close>;
  \<open>cross6_reversed\<close> is the same crossword with every order reversed.
\<close>

definition cross6 :: crossword where
  "cross6 =
     \<lparr>variables = [slot_x, slot_y, slot_z],
      words = [''aca'', ''bcb'', ''bdb'', ''apx'', ''bqx'', ''brx''],
      overlaps = overlaps3\<rparr>"

definition domains6 :: domains where
  "domains6 =
     [(slot_x, [''aca'', ''bcb'', ''bdb'']),
      (slot_y, [''bcb'', ''bdb'', ''apx'', ''bqx'', ''brx'']),
      (slot_z, [''bcb'', ''bdb'', ''apx'', ''bqx'', ''brx''])]"

definition cross6_reversed :: crossword where
  "cross6_reversed =
     \<lparr>variables = [slot_z, slot_y, slot_x],
      words = [''brx'', ''bqx'', ''apx'', ''bdb'', ''bcb'', ''aca''],
      overlaps = rev overlaps3\<rparr>"

text \<open>The arch with the three words of that filling only.\<close>

definition cross_bcb :: crossword where
  "cross_bcb =
     \<lparr>variables = [slot_x, slot_y, slot_z], words = [''bcb'', ''bqx'', ''brx''],
      overlaps = overlaps3\<rparr>"

text \<open>A single row of five cells, and a dictionary of words of length three and
  four.\<close>

definition slot_five :: variable where
  "slot_five = \<lparr>var_i = 0, var_j = 0, var_direction = ACROSS, var_length = 5\<rparr>"

definition cross_five :: crossword where
  "cross_five = \<lparr>variables = [slot_five], words = [''cat'', ''word''], overlaps = []\<rparr>"

section \<open>The orderings the specification asks for\<close>

text \<open>
  The specification orders the words of a slot by the number of neighbouring
  domains that would lose at least one candidate if the word were chosen. A
  candidate of a neighbour is lost when it does not agree with the word at the
  overlap, agreement at the offsets being all the specification asks of a
  support; \<open>losing_neighbors\<close> is that key. The docstring of
  \<^verbatim>\<open>select_unassigned_variable\<close> breaks ties by the degree, the number of
  neighbours.
\<close>

definition agree :: "nat \<Rightarrow> nat \<Rightarrow> string \<Rightarrow> string \<Rightarrow> bool" where
  "agree i j w w' \<longleftrightarrow> i < length w \<and> j < length w' \<and> w ! i = w' ! j"

definition loses_candidate ::
  "crossword \<Rightarrow> domains \<Rightarrow> variable \<Rightarrow> string \<Rightarrow> variable \<Rightarrow> bool" where
  "loses_candidate c d var val neighbor =
     (case map_of (overlaps c) (var, neighbor) of
        Some (Some (i, j)) \<Rightarrow>
          (case map_of d neighbor of
             Some dn \<Rightarrow> list_ex (\<lambda>w'. \<not> agree i j val w') dn
           | None \<Rightarrow> False)
      | _ \<Rightarrow> False)"

definition losing_neighbors :: "crossword \<Rightarrow> domains \<Rightarrow> variable \<Rightarrow> string \<Rightarrow> nat" where
  "losing_neighbors c d var val =
     length (filter (loses_candidate c d var val) (neighbors c var))"

definition degree :: "crossword \<Rightarrow> variable \<Rightarrow> nat" where
  "degree c var = length (neighbors c var)"

section \<open>Predicates of the statements\<close>

text \<open>The words of the other domain that support a word \<open>w\<close>, as \<^verbatim>\<open>revise\<close> tests
  them: another word, both long enough, the same character at the offsets.\<close>

definition supported :: "nat \<Rightarrow> nat \<Rightarrow> string list \<Rightarrow> string \<Rightarrow> bool" where
  "supported cx cy dy w \<longleftrightarrow>
     (\<exists>w' \<in> set dy. w' \<noteq> w \<and> cx < length w \<and> cy < length w' \<and> w ! cx = w' ! cy)"

text \<open>
  Propagation keeps the slots of the domain map and only ever removes words:
  \<open>narrows d d'\<close> says that \<open>d'\<close> has the keys of \<open>d\<close> and under each key a subset of
  the words.
\<close>

definition narrows :: "domains \<Rightarrow> domains \<Rightarrow> bool" where
  "narrows d d' \<longleftrightarrow>
     map fst d' = map fst d \<and>
     (\<forall>k ws ws'. map_of d k = Some ws \<longrightarrow> map_of d' k = Some ws' \<longrightarrow> set ws' \<subseteq> set ws)"

text \<open>
  A valid assignment: every word has the length of its slot, the words are
  pairwise distinct, and two assigned neighbours carry the same character at
  their overlap.
\<close>

definition valid_assignment :: "crossword \<Rightarrow> assignment \<Rightarrow> bool" where
  "valid_assignment c a \<longleftrightarrow>
     (\<forall>(key, w) \<in> set a. length w = var_length key)
     \<and> distinct (map snd a)
     \<and> (\<forall>(x, wx) \<in> set a. \<forall>(y, wy) \<in> set a. y \<in> set (neighbors c x) \<longrightarrow>
          (\<exists>ox oy. map_of (overlaps c) (x, y) = Some (Some (ox, oy))
             \<and> ox < length wx \<and> oy < length wy \<and> wx ! ox = wy ! oy))"




section \<open>Node consistency: what is removed, and idempotence\<close>

lemma remove_mismatched_filter:
  "remove_mismatched key copy ws = filter (\<lambda>w. w \<notin> set copy \<or> length w = var_length key) ws"
  by (induction copy arbitrary: ws) (auto simp: removeAll_filter_not_eq intro: filter_cong)

lemma remove_mismatched_self:
  "remove_mismatched key ws ws = filter (\<lambda>w. length w = var_length key) ws"
  unfolding remove_mismatched_filter by (rule filter_cong) auto

lemma enforce_node_consistency_map:
  "enforce_node_consistency d =
     map (\<lambda>(key, ws). (key, filter (\<lambda>w. length w = var_length key) ws)) d"
  by (simp add: enforce_node_consistency_def remove_mismatched_self)

lemma map_of_enforce_node_consistency:
  "map_of (enforce_node_consistency d) key =
     map_option (filter (\<lambda>w. length w = var_length key)) (map_of d key)"
  unfolding enforce_node_consistency_map by (induction d) auto

lemma enforce_node_consistency_idem:
  "enforce_node_consistency (enforce_node_consistency d) = enforce_node_consistency d"
  unfolding enforce_node_consistency_map by (induction d) auto

text \<open>
  Claim C8. \<^verbatim>\<open>enforce_node_consistency\<close> keeps the slots and keeps, in the domain
  of each slot, exactly the words whose length is the length of the slot; run a
  second time on the domains it produced, it changes nothing.
\<close>

theorem enforce_node_consistency_exact_idempotent:
  "map_of (enforce_node_consistency d) key =
     map_option (filter (\<lambda>w. length w = var_length key)) (map_of d key)
   \<and> map fst (enforce_node_consistency d) = map fst d
   \<and> enforce_node_consistency (enforce_node_consistency d) = enforce_node_consistency d"
  by (simp add: map_of_enforce_node_consistency enforce_node_consistency_idem)
     (simp add: enforce_node_consistency_def case_prod_beta)

section \<open>Revise\<close>

lemma revise_loop_no_IndexError:
  "revise_loop cx cy x y copy d revised \<noteq> Inl IndexError"
  by (induction copy arbitrary: d revised)
     (auto simp: getitem_Inl revise_found_eq split: sum.splits)

text \<open>
  Claim C10. Called on a pair of slots whose overlap entry is \<^verbatim>\<open>None\<close>, \<^verbatim>\<open>revise\<close>
  returns false and leaves all domains as they are; and whatever the domains
  hold, also words shorter than the overlap offsets, \<^verbatim>\<open>revise\<close> never raises
  \<^verbatim>\<open>IndexError\<close>.
\<close>

theorem revise_total:
  "(map_of (overlaps c) (x, y) = Some None \<longrightarrow> revise c d x y = Inr (False, d))
   \<and> revise c d x y \<noteq> Inl IndexError"
  by (auto simp: revise_def getitem_def revise_loop_no_IndexError
      split: option.splits sum.splits)

theorem revise_total_witness:
  "map_of (overlaps cross3) (slot_y, slot_z) = Some None
   \<and> revise cross3 (init_domains cross3) slot_y slot_z = Inr (False, init_domains cross3)
   \<and> revise cross3 (init_domains cross3) slot_y slot_z \<noteq> Inl IndexError"
proof -
  have h: "map_of (overlaps cross3) (slot_y, slot_z) = Some None"
    by (simp add: cross3_def overlaps3_def slot_x_def slot_y_def slot_z_def)
  with revise_total [of cross3 slot_y slot_z "init_domains cross3"] show ?thesis
    by simp
qed

text \<open>A word shorter than the offset is not read at the offset: it has no support
  and is removed.\<close>

lemma revise_short_word:
  "revise cross3 [(slot_x, [''a'', ''abc'']), (slot_z, [''c''])] slot_x slot_z
     = Inr (True, [(slot_x, [''abc'']), (slot_z, [''c''])])"
  by code_simp

lemma revise_loop_exact:
  "x \<noteq> y \<Longrightarrow> map_of d y = Some dy \<Longrightarrow> map_of d x = Some dx \<Longrightarrow>
     revise_loop cx cy x y copy d revised =
       Inr (revised \<or> (\<exists>w \<in> set copy. \<not> supported cx cy dy w),
            AList.update x (filter (\<lambda>w. w \<notin> set copy \<or> supported cx cy dy w) dx) d)"
proof (induction copy arbitrary: d dx revised)
  case Nil
  then show ?case by (simp add: update_triv)
next
  case (Cons w copy)
  have found: "revise_found cx cy w dy False = Inr (supported cx cy dy w)"
    by (auto simp: revise_found_eq supported_def)
  show ?case
  proof (cases "supported cx cy dy w")
    case True
    have "filter (\<lambda>v. v \<notin> set (w # copy) \<or> supported cx cy dy v) dx
            = filter (\<lambda>v. v \<notin> set copy \<or> supported cx cy dy v) dx"
      using True by (intro filter_cong) auto
    with True Cons.prems found Cons.IH [OF Cons.prems, of revised] show ?thesis
      by (auto simp: getitem_def)
  next
    case False
    let ?d1 = "AList.update x (removeAll w dx) d"
    have y1: "map_of ?d1 y = Some dy" and x1: "map_of ?d1 x = Some (removeAll w dx)"
      using Cons.prems by (simp_all add: update_conv')
    have "filter (\<lambda>v. v \<notin> set copy \<or> supported cx cy dy v) (removeAll w dx)
            = filter (\<lambda>v. v \<notin> set (w # copy) \<or> supported cx cy dy v) dx"
      using False by (auto simp: removeAll_filter_not_eq intro: filter_cong)
    with False Cons.prems found Cons.IH [OF Cons.prems(1) y1 x1, of True] show ?thesis
      by (auto simp: getitem_def)
  qed
qed

text \<open>
  Claim C4, as the code has it. For slots \<open>x \<noteq> y\<close> with the overlap \<open>(ix, iy)\<close>,
  \<^verbatim>\<open>revise(x, y)\<close> keeps in the domain of \<open>x\<close> exactly the words \<open>w\<close> for which
  the domain of \<open>y\<close> holds a word \<open>w'\<close> other than \<open>w\<close> itself, with both words
  longer than their offsets and \<open>w[ix] = w'[iy]\<close>; it leaves every other domain
  unchanged and returns true if and only if a word was removed.
\<close>

theorem revise_removes_unsupported:
  assumes "x \<noteq> y" "map_of (overlaps c) (x, y) = Some (Some (ix, iy))"
    and "map_of d x = Some dx" "map_of d y = Some dy"
  shows "\<exists>b d' dx'. revise c d x y = Inr (b, d')
           \<and> map_of d' x = Some dx'
           \<and> set dx' = {w \<in> set dx. \<exists>w' \<in> set dy.
                 w' \<noteq> w \<and> ix < length w \<and> iy < length w' \<and> w ! ix = w' ! iy}
           \<and> map_of d' y = Some dy
           \<and> (\<forall>k. k \<noteq> x \<longrightarrow> map_of d' k = map_of d k)
           \<and> (b \<longleftrightarrow> set dx' \<noteq> set dx)"
proof -
  define dx' where "dx' = filter (\<lambda>w. w \<notin> set dx \<or> supported ix iy dy w) dx"
  define b where "b \<longleftrightarrow> (\<exists>w \<in> set dx. \<not> supported ix iy dy w)"
  define d' where "d' = AList.update x dx' d"
  have r: "revise c d x y = Inr (b, d')"
    using assms revise_loop_exact [OF assms(1,4,3), of ix iy dx False]
    by (simp add: revise_def getitem_def b_def d'_def dx'_def)
  have "set dx' = {w \<in> set dx. supported ix iy dy w}"
    by (auto simp: dx'_def)
  also have "\<dots> = {w \<in> set dx. \<exists>w' \<in> set dy.
                 w' \<noteq> w \<and> ix < length w \<and> iy < length w' \<and> w ! ix = w' ! iy}"
    unfolding supported_def ..
  finally have s: "set dx' = {w \<in> set dx. \<exists>w' \<in> set dy.
                 w' \<noteq> w \<and> ix < length w \<and> iy < length w' \<and> w ! ix = w' ! iy}" .
  have b: "b \<longleftrightarrow> set dx' \<noteq> set dx"
    by (auto simp: dx'_def b_def)
  have x': "map_of d' x = Some dx'" and y': "map_of d' y = Some dy"
    and k': "\<forall>k. k \<noteq> x \<longrightarrow> map_of d' k = map_of d k"
    using assms(1,4) by (simp_all add: d'_def update_conv')
  from r x' s y' k' b show ?thesis by blast
qed

theorem revise_removes_unsupported_witness:
  "slot_x \<noteq> slot_z
   \<and> map_of (overlaps cross3) (slot_x, slot_z) = Some (Some (2, 0))
   \<and> map_of (init_domains cross3) slot_x = Some [''aca'', ''bcb'', ''apx'', ''bqx'']
   \<and> map_of (init_domains cross3) slot_z = Some [''aca'', ''bcb'', ''apx'', ''bqx'']
   \<and> (\<exists>b d' dx'. revise cross3 (init_domains cross3) slot_x slot_z = Inr (b, d')
          \<and> map_of d' slot_x = Some dx'
          \<and> set dx' = {w \<in> set [''aca'', ''bcb'', ''apx'', ''bqx''].
                \<exists>w' \<in> set [''aca'', ''bcb'', ''apx'', ''bqx''].
                   w' \<noteq> w \<and> 2 < length w \<and> 0 < length w' \<and> w ! 2 = w' ! 0}
          \<and> map_of d' slot_z = Some [''aca'', ''bcb'', ''apx'', ''bqx'']
          \<and> (\<forall>k. k \<noteq> slot_x \<longrightarrow> map_of d' k = map_of (init_domains cross3) k)
          \<and> (b \<longleftrightarrow> set dx' \<noteq> set [''aca'', ''bcb'', ''apx'', ''bqx'']))"
proof -
  have h1: "slot_x \<noteq> slot_z"
    by (simp add: slot_x_def slot_z_def)
  have h2: "map_of (overlaps cross3) (slot_x, slot_z) = Some (Some (2, 0))"
    by (simp add: cross3_def overlaps3_def slot_x_def slot_y_def slot_z_def)
  have h3: "map_of (init_domains cross3) slot_x = Some [''aca'', ''bcb'', ''apx'', ''bqx'']"
    by (simp add: init_domains_def cross3_def)
  have h4: "map_of (init_domains cross3) slot_z = Some [''aca'', ''bcb'', ''apx'', ''bqx'']"
    by (simp add: init_domains_def cross3_def slot_x_def slot_y_def slot_z_def)
  from h1 h2 h3 h4 revise_removes_unsupported [OF h1 h2 h3 h4] show ?thesis
    by simp
qed

text \<open>In that revision the words \<open>apx\<close> and \<open>bqx\<close> are removed: no word starts
  with their third letter.\<close>

lemma revise_cross3_x_z:
  "revise cross3 (init_domains cross3) slot_x slot_z
     = Inr (True, [(slot_x, [''aca'', ''bcb'']),
                   (slot_y, [''aca'', ''bcb'', ''apx'', ''bqx'']),
                   (slot_z, [''aca'', ''bcb'', ''apx'', ''bqx''])])"
  by code_simp

text \<open>
  The claim as the specification words it fails where both domains hold the same
  single word: \<open>aa\<close> in the domain of \<open>corner_down\<close> agrees with \<open>aa\<close> at the
  overlap, and \<^verbatim>\<open>revise\<close> removes \<open>aa\<close> from the domain of \<open>corner_across\<close> all
  the same.
\<close>

theorem revise_same_word_counterexample:
  "map_of (enforce_node_consistency (init_domains cross_aa)) corner_across = Some [''aa'']
   \<and> map_of (enforce_node_consistency (init_domains cross_aa)) corner_down = Some [''aa'']
   \<and> map_of (overlaps cross_aa) (corner_across, corner_down) = Some (Some (0, 0))
   \<and> ''aa'' ! 0 = ''aa'' ! 0
   \<and> revise cross_aa (enforce_node_consistency (init_domains cross_aa))
         corner_across corner_down
       = Inr (True, [(corner_across, []), (corner_down, [''aa''])])"
  by code_simp

section \<open>The worklist loop: productive revisions\<close>

declare ac3_loop.simps [simp del]

lemma deQueue_nonempty: "queue \<noteq> [] \<Longrightarrow> \<exists>arc queue1. deQueue queue = (Some arc, queue1)"
  by (cases queue) (auto simp: deQueue_def)

lemma ac3_loop_productive:
  "ac3_loop c queue d n = Inr (ok, d', m) \<Longrightarrow> n + domains_size d \<ge> m + domains_size d'"
proof (induction c queue d n rule: ac3_loop.induct)
  case (1 c queue d n)
  show ?case
  proof (cases "queue = []")
    case True
    with "1.prems" show ?thesis by (simp add: ac3_loop.simps)
  next
    case False
    obtain arc queue1 where dq: "deQueue queue = (Some arc, queue1)"
      using deQueue_nonempty [OF False] by blast
    from "1.prems" False dq obtain revised d1 where
      rv: "revise c d (fst arc) (snd arc) = Inr (revised, d1)"
      by (subst (asm) ac3_loop.simps) (auto split: sum.splits)
    show ?thesis
    proof (cases revised)
      case True
      from rv True have "revise c d (fst arc) (snd arc) = Inr (True, d1)" by simp
      then have less: "domains_size d1 < domains_size d" by (rule revise_size_less)
      from "1.prems" False dq rv True obtain dx where dx: "getitem d1 (fst arc) = Inr dx"
        by (subst (asm) ac3_loop.simps) (auto split: sum.splits)
      show ?thesis
      proof (cases "length dx = 0")
        case empty: True
        with "1.prems" False dq rv True dx have "d' = d1" "m = Suc n"
          by (subst (asm) ac3_loop.simps, simp)+
        with less show ?thesis by simp
      next
        case nonempty: False
        from "1.prems" False dq rv True dx nonempty obtain queue2 where
          q2: "enqueue_neighbors c (fst arc) (snd arc) (neighbors c (fst arc)) queue1 = Inr queue2"
          and rec: "ac3_loop c queue2 d1 (Suc n) = Inr (ok, d', m)"
          by (subst (asm) ac3_loop.simps) (auto split: sum.splits)
        from "1.IH"(1) [OF False dq [symmetric] refl rv refl True dx nonempty q2 rec]
        have "m + domains_size d' \<le> Suc n + domains_size d1" .
        with less show ?thesis by simp
      qed
    next
      case unrevised: False
      with rv have "revise c d (fst arc) (snd arc) = Inr (False, d1)" by simp
      then have "d1 = d" by (rule revise_unrevised)
      from "1.prems" False dq rv unrevised have rec: "ac3_loop c queue1 d1 n = Inr (ok, d', m)"
        by (subst (asm) ac3_loop.simps) simp
      from "1.IH"(2) [OF False dq [symmetric] refl rv refl unrevised rec] \<open>d1 = d\<close>
      show ?thesis by simp
    qed
  qed
qed

text \<open>
  Claim C9. \<^verbatim>\<open>ac3\<close> terminates on every input: \<open>ac3_loop\<close> is a total function,
  defined by recursion on the pair of the total candidate count and the length
  of the queue, with no fuel. The revisions that change a domain are at most as
  many as the candidates they remove, so at most the total candidate count.
\<close>

theorem ac3_productive_revisions_bounded:
  assumes "ac3 c d arcs = Inr (ok, d', m)"
  shows "m + domains_size d' \<le> domains_size d"
  using assms ac3_loop_productive [of c _ d 0 ok d' m]
  by (auto simp: ac3_def split: option.splits)

theorem ac3_productive_revisions_bounded_witness:
  "ac3 cross3 (enforce_node_consistency (init_domains cross3)) None = Inr (True, domains3, 3)
   \<and> 3 + domains_size domains3 \<le> domains_size (enforce_node_consistency (init_domains cross3))"
proof -
  have h: "ac3 cross3 (enforce_node_consistency (init_domains cross3)) None
             = Inr (True, domains3, 3)"
    by code_simp
  from h ac3_productive_revisions_bounded [OF h] show ?thesis
    by simp
qed

section \<open>Empty domains and the top level\<close>

text \<open>
  Claim C5, at a failing input. The docstring of \<^verbatim>\<open>ac3\<close> promises that no domain
  is empty when it returns true. For the single slot of length five, node
  consistency leaves an empty domain, there is no arc to revise, and \<^verbatim>\<open>ac3\<close>
  returns true with that domain empty.
\<close>

theorem ac3_true_with_empty_domain:
  "enforce_node_consistency (init_domains cross_five) = [(slot_five, [])]
   \<and> ac3 cross_five [(slot_five, [])] None = Inr (True, [(slot_five, [])], 0)"
  by code_simp

section \<open>Variable selection on a tie\<close>

text \<open>
  Claim C6, at a failing input. On the arch with the words of \<open>cross3\<close>, the slots
  iterated in the order \<open>slot_y\<close>, \<open>slot_x\<close>, \<open>slot_z\<close>, the three domains after
  node consistency and \<^verbatim>\<open>ac3\<close> tie on their size, two; \<open>slot_x\<close> has two
  neighbours, \<open>slot_y\<close> one. The docstring asks for the highest degree among the
  tied slots; \<^verbatim>\<open>select_unassigned_variable\<close>, called by the first frame of the
  search, returns \<open>slot_y\<close>, the first of the tied slots in the order of
  iteration.
\<close>

theorem select_unassigned_variable_ignores_degree:
  "ac3 cross3_yxz (enforce_node_consistency (init_domains cross3_yxz)) None
     = Inr (True, [(slot_y, [''apx'', ''bqx'']), (slot_x, [''aca'', ''bcb'']),
                   (slot_z, [''apx'', ''bqx''])], 3)
   \<and> select_unassigned_variable cross3_yxz
        [(slot_y, [''apx'', ''bqx'']), (slot_x, [''aca'', ''bcb'']),
         (slot_z, [''apx'', ''bqx''])] []
       = Inr slot_y
   \<and> degree cross3_yxz slot_y = 1
   \<and> degree cross3_yxz slot_x = 2"
  by code_simp

section \<open>Backtracking: what a failed candidate leaves behind\<close>

text \<open>
  Claim C3, at a failing input. In the first frame of the search on \<open>cross3\<close> the
  slot \<open>slot_x\<close> is selected and its two words are candidates. Whichever of them
  is tried first, it fails, and the word that \<^verbatim>\<open>ac3\<close> removed from the domains
  of \<open>slot_y\<close> and of \<open>slot_z\<close> is not put back: only the words recorded in
  \<^verbatim>\<open>inferenceValues\<close>, those of the domain of \<open>slot_x\<close>, are added again.
\<close>

theorem try_value_leaves_domains_pruned:
  "ac3 cross3 (enforce_node_consistency (init_domains cross3)) None = Inr (True, domains3, 3)
   \<and> select_unassigned_variable cross3 domains3 [] = Inr slot_x
   \<and> order_domain_values cross3 domains3 slot_x [] = Inr [''aca'', ''bcb'']
   \<and> try_value cross3 [] slot_x ''aca'' domains3
       = Inr (None, [(slot_x, [''aca'', ''bcb'']), (slot_y, [''apx'']), (slot_z, [''apx''])], 2)
   \<and> try_value cross3 [] slot_x ''bcb'' domains3
       = Inr (None, [(slot_x, [''bcb'', ''aca'']), (slot_y, [''bqx'']), (slot_z, [''bqx''])], 2)"
  by code_simp

text \<open>
  What the lost words cost. On \<open>cross6\<close> the domain of \<open>slot_x\<close> is the smallest,
  and \<open>aca\<close> is tried first in any order of iteration: it is in no neighbouring
  domain, \<open>bcb\<close> and \<open>bdb\<close> are in both. It fails, and neither \<open>bcb\<close> nor \<open>bdb\<close>
  finds a support in the domains it left; \<^verbatim>\<open>solve\<close> returns \<^verbatim>\<open>None\<close>, and a
  filling exists. The result is the same with every order reversed.
\<close>

lemma solve_misses_filling:
  "consistent cross6 [(slot_x, ''bcb''), (slot_y, ''bqx''), (slot_z, ''brx'')] = Inr True
   \<and> assignment_complete cross6 [(slot_x, ''bcb''), (slot_y, ''bqx''), (slot_z, ''brx'')]
   \<and> ac3 cross6 (enforce_node_consistency (init_domains cross6)) None = Inr (True, domains6, 3)
   \<and> select_unassigned_variable cross6 domains6 [] = Inr slot_x
   \<and> order_domain_values cross6 domains6 slot_x [] = Inr [''aca'', ''bcb'', ''bdb'']
   \<and> solve cross6 (init_domains cross6)
       = Inr (None, [(slot_x, [''aca'']), (slot_y, [''apx'']), (slot_z, [''apx''])], 3)"
  by code_simp

lemma solve_misses_filling_reversed:
  "select_unassigned_variable cross6_reversed
      [(slot_z, [''brx'', ''bqx'', ''apx'', ''bdb'', ''bcb'']),
       (slot_y, [''brx'', ''bqx'', ''apx'', ''bdb'', ''bcb'']),
       (slot_x, [''bdb'', ''bcb'', ''aca''])] [] = Inr slot_x
   \<and> order_domain_values cross6_reversed
      [(slot_z, [''brx'', ''bqx'', ''apx'', ''bdb'', ''bcb'']),
       (slot_y, [''brx'', ''bqx'', ''apx'', ''bdb'', ''bcb'']),
       (slot_x, [''bdb'', ''bcb'', ''aca''])] slot_x [] = Inr [''aca'', ''bdb'', ''bcb'']
   \<and> solve cross6_reversed (init_domains cross6_reversed)
       = Inr (None, [(slot_z, []), (slot_y, []), (slot_x, [''bcb'', ''bdb'', ''aca''])], 3)"
  by code_simp

section \<open>Propagation only removes words\<close>

lemma narrows_refl: "narrows d d"
  by (simp add: narrows_def)

lemma map_of_eq_None_keys: "map_of d k = None \<longleftrightarrow> k \<notin> set (map fst d)"
  by (simp add: map_of_eq_None_iff)

lemma narrows_trans:
  assumes "narrows d d1" "narrows d1 d2"
  shows "narrows d d2"
  unfolding narrows_def
proof (intro conjI allI impI)
  show "map fst d2 = map fst d" using assms by (simp add: narrows_def)
next
  fix k ws ws2
  assume k: "map_of d k = Some ws" "map_of d2 k = Some ws2"
  have "map_of d1 k \<noteq> None"
    using k(1) assms(1) unfolding narrows_def map_of_eq_None_keys by (metis option.distinct(1) map_of_eq_None_keys)
  then obtain ws1 where "map_of d1 k = Some ws1" by auto
  with k assms show "set ws2 \<subseteq> set ws" unfolding narrows_def by blast
qed

lemma narrows_remove:
  assumes "map_of d x = Some dx"
  shows "narrows d (AList.update x (removeAll w dx) d)"
proof -
  have "x \<in> set (map fst d)" using assms by (metis map_of_eq_None_keys option.distinct(1))
  then have "map fst (AList.update x (removeAll w dx) d) = map fst d"
    by (simp add: update_keys)
  with assms show ?thesis
    by (auto simp: narrows_def update_conv')
qed

lemma narrows_empty:
  assumes "narrows d d'" "map_of d x = Some []"
  shows "map_of d' x = Some []"
proof -
  have "map_of d' x \<noteq> None"
    using assms unfolding narrows_def by (metis map_of_eq_None_keys option.distinct(1))
  then obtain ws' where "map_of d' x = Some ws'" by auto
  with assms show ?thesis unfolding narrows_def by fastforce
qed

lemma revise_loop_narrows:
  "revise_loop cx cy x y copy d revised = Inr (b, d') \<Longrightarrow> narrows d d'"
proof (induction copy arbitrary: d revised)
  case Nil
  then show ?case by (simp add: narrows_refl)
next
  case (Cons w copy)
  show ?case
  proof (cases "revise_loop cx cy x y copy d revised = Inr (b, d')")
    case True
    then show ?thesis by (rule Cons.IH)
  next
    case False
    with Cons.prems obtain dx where dx: "map_of d x = Some dx"
      and rec: "revise_loop cx cy x y copy (AList.update x (removeAll w dx) d) True = Inr (b, d')"
      by (auto simp: getitem_Inr revise_found_eq split: sum.splits if_splits)
    from narrows_remove [OF dx] Cons.IH [OF rec] show ?thesis
      by (rule narrows_trans)
  qed
qed

lemma revise_narrows: "revise c d x y = Inr (b, d') \<Longrightarrow> narrows d d'"
  by (auto simp: revise_def narrows_refl split: sum.splits option.splits
      dest: revise_loop_narrows)

lemma ac3_loop_cases:
  assumes "ac3_loop c queue d n = Inr (ok, d', m)"
  obtains (finished) "queue = []" "ok" "d' = d" "m = n"
  | (emptied) arc queue1 d1 where "deQueue queue = (Some arc, queue1)"
      "revise c d (fst arc) (snd arc) = Inr (True, d1)" "map_of d1 (fst arc) = Some []"
      "\<not> ok" "d' = d1" "m = Suc n"
  | (revised) arc queue1 d1 dx queue2 where "queue \<noteq> []" "(Some arc, queue1) = deQueue queue"
      "revise c d (fst arc) (snd arc) = Inr (True, d1)"
      "getitem d1 (fst arc) = Inr dx" "length dx \<noteq> 0"
      "enqueue_neighbors c (fst arc) (snd arc) (neighbors c (fst arc)) queue1 = Inr queue2"
      "ac3_loop c queue2 d1 (Suc n) = Inr (ok, d', m)"
  | (unrevised) arc queue1 where "queue \<noteq> []" "(Some arc, queue1) = deQueue queue"
      "revise c d (fst arc) (snd arc) = Inr (False, d)"
      "ac3_loop c queue1 d n = Inr (ok, d', m)"
proof (cases "queue = []")
  case True
  with assms finished show ?thesis by (simp add: ac3_loop.simps)
next
  case False
  obtain arc queue1 where dq: "deQueue queue = (Some arc, queue1)"
    using deQueue_nonempty [OF False] by blast
  from assms False dq obtain rev d1 where
    rv: "revise c d (fst arc) (snd arc) = Inr (rev, d1)"
    by (subst (asm) ac3_loop.simps) (auto split: sum.splits)
  show ?thesis
  proof (cases rev)
    case True
    from assms False dq rv True obtain dx where dx: "getitem d1 (fst arc) = Inr dx"
      by (subst (asm) ac3_loop.simps) (auto split: sum.splits)
    show ?thesis
    proof (cases "length dx = 0")
      case empty: True
      with assms False dq rv True dx have "d' = d1" "m = Suc n" "\<not> ok"
        by (subst (asm) ac3_loop.simps, simp)+
      with emptied [OF dq] rv True dx empty show ?thesis by (simp add: getitem_Inr)
    next
      case nonempty: False
      from assms False dq rv True dx nonempty obtain queue2 where
        "enqueue_neighbors c (fst arc) (snd arc) (neighbors c (fst arc)) queue1 = Inr queue2"
        "ac3_loop c queue2 d1 (Suc n) = Inr (ok, d', m)"
        by (subst (asm) ac3_loop.simps) (auto split: sum.splits)
      with revised [OF False dq [symmetric] _ dx nonempty] rv True show ?thesis by simp
    qed
  next
    case unrev: False
    with rv have rv': "revise c d (fst arc) (snd arc) = Inr (False, d1)" by simp
    then have "d1 = d" by (rule revise_unrevised)
    from assms False dq rv unrev have "ac3_loop c queue1 d1 n = Inr (ok, d', m)"
      by (subst (asm) ac3_loop.simps) simp
    with unrevised [OF False dq [symmetric]] rv' \<open>d1 = d\<close> show ?thesis by simp
  qed
qed

text \<open>A property of the domains that every revision passes on holds between the
  domains \<^verbatim>\<open>ac3\<close> starts from and those it returns.\<close>

lemma ac3_loop_invariant:
  assumes run: "ac3_loop c queue d n = Inr (ok, d', m)"
    and base: "\<And>d. R d d"
    and step: "\<And>d x y b d1 d2. revise c d x y = Inr (b, d1) \<Longrightarrow> R d1 d2 \<Longrightarrow> R d d2"
  shows "R d d'"
  using run step
proof (induction c queue d n rule: ac3_loop.induct)
  case (1 c queue d n)
  note step = "1.prems"(2)
  from "1.prems"(1) show ?case
  proof (cases rule: ac3_loop_cases)
    case finished
    then show ?thesis by (simp add: base)
  next
    case (emptied arc queue1 d1)
    from step [OF emptied(2) base] emptied(5) show ?thesis by simp
  next
    case (revised arc queue1 d1 dx queue2)
    from "1.IH"(1) [OF revised(1,2) refl revised(3) refl TrueI revised(4,5,6,7) step]
    have "R d1 d'" .
    with step [OF revised(3)] show ?thesis .
  next
    case (unrevised arc queue1)
    from "1.IH"(2) [OF unrevised(1,2) refl unrevised(3) refl _ unrevised(4) step]
    show ?thesis by simp
  qed
qed

lemma ac3_loop_narrows:
  assumes "ac3_loop c queue d n = Inr (ok, d', m)"
  shows "narrows d d'"
  using assms
proof (rule ac3_loop_invariant)
  show "narrows d d" for d by (rule narrows_refl)
  show "narrows d d2" if "revise c d x y = Inr (b, d1)" "narrows d1 d2" for d x y b d1 d2
    using revise_narrows [OF that(1)] that(2) by (rule narrows_trans)
qed

lemma ac3_loop_failure:
  "ac3_loop c queue d n = Inr (False, d', m) \<Longrightarrow> \<exists>x. map_of d' x = Some []"
proof (induction c queue d n rule: ac3_loop.induct)
  case (1 c queue d n)
  from "1.prems" show ?case
  proof (cases rule: ac3_loop_cases)
    case finished
    then show ?thesis by simp
  next
    case (emptied arc queue1 d1)
    then show ?thesis by auto
  next
    case (revised arc queue1 d1 dx queue2)
    from "1.IH"(1) [OF revised(1,2) refl revised(3) refl TrueI revised(4,5,6,7)]
    show ?thesis .
  next
    case (unrevised arc queue1)
    from "1.IH"(2) [OF unrevised(1,2) refl unrevised(3) refl _ unrevised(4)]
    show ?thesis by simp
  qed
qed

lemma ac3_narrows: "ac3 c d arcs = Inr (ok, d', m) \<Longrightarrow> narrows d d'"
  by (auto simp: ac3_def split: option.splits dest: ac3_loop_narrows)

lemma ac3_failure: "ac3 c d arcs = Inr (False, d', m) \<Longrightarrow> \<exists>x. map_of d' x = Some []"
  by (auto simp: ac3_def split: option.splits dest: ac3_loop_failure)

section \<open>The first frame of the search on an empty domain\<close>

lemma sort_key_hd_min:
  assumes "sort_key f xs = y # ys" "x \<in> set xs"
  shows "f y \<le> f x"
proof -
  have "sorted (map f (sort_key f xs))" by (rule sorted_sort_key)
  with assms(1) have "\<forall>z \<in> set ys. f y \<le> f z" by simp
  moreover from assms have "x \<in> set (y # ys)" by (metis set_sort)
  ultimately show ?thesis by auto
qed

lemma set_update_subset: "set (AList.update k v al) \<subseteq> insert (k, v) (set al)"
  by (induction al) auto

lemma select_loop_entries:
  "select_loop d a vars vs = Inr vs' \<Longrightarrow> (v, n) \<in> set vs' \<Longrightarrow>
     (v, n) \<in> set vs \<or> (\<exists>dv. map_of d v = Some dv \<and> n = length dv)"
proof (induction vars arbitrary: vs)
  case Nil
  then show ?case by simp
next
  case (Cons u vars)
  show ?case
  proof (cases "map_of a u = None")
    case True
    with Cons.prems obtain du :: "string list" where du: "map_of d u = Some du"
      and rec: "select_loop d a vars (AList.update u (length du) vs) = Inr vs'"
      by (cases "getitem d u") (auto simp: getitem_Inr)
    from Cons.IH [OF rec Cons.prems(2)] set_update_subset [of u "length du" vs] du
    show ?thesis by auto
  next
    case False
    with Cons.prems have "select_loop d a vars vs = Inr vs'" by simp
    from Cons.IH [OF this Cons.prems(2)] show ?thesis .
  qed
qed

lemma select_loop_covers:
  "select_loop d a vars vs = Inr vs' \<Longrightarrow>
     fst ` set vs \<union> {v \<in> set vars. map_of a v = None} \<subseteq> fst ` set vs'"
proof (induction vars arbitrary: vs)
  case Nil
  then show ?case by simp
next
  case (Cons u vars)
  show ?case
  proof (cases "map_of a u = None")
    case True
    with Cons.prems obtain du :: "string list" where
      rec: "select_loop d a vars (AList.update u (length du) vs) = Inr vs'"
      by (cases "getitem d u") auto
    from Cons.IH [OF rec] True show ?thesis
      unfolding AList.dom_update by auto
  next
    case False
    with Cons.prems have "select_loop d a vars vs = Inr vs'" by simp
    from Cons.IH [OF this] False show ?thesis by auto
  qed
qed

text \<open>Minimum remaining values: no unassigned slot has a smaller domain than the
  slot selected.\<close>

lemma select_unassigned_variable_minimum:
  assumes sel: "select_unassigned_variable c d a = Inr var"
    and x: "x \<in> set (variables c)" "map_of a x = None" "map_of d x = Some dx"
  shows "\<exists>dv. map_of d var = Some dv \<and> length dv \<le> length dx"
proof -
  from sel obtain vs n rest where
    vs: "select_loop d a (variables c) [] = Inr vs" and s: "sort_key snd vs = (var, n) # rest"
    by (auto simp: select_unassigned_variable_def split: sum.splits list.splits)
  from select_loop_covers [OF vs] x(1,2) obtain k where k: "(x, k) \<in> set vs" by force
  from select_loop_entries [OF vs k] x(3) have "k = length dx" by simp
  from s have "(var, n) \<in> set (sort_key snd vs)" by simp
  then have "(var, n) \<in> set vs" by simp
  from select_loop_entries [OF vs this] obtain dv where
    dv: "map_of d var = Some dv" "n = length dv" by auto
  from sort_key_hd_min [OF s k] have "n \<le> k" by simp
  with dv \<open>k = length dx\<close> show ?thesis by simp
qed

text \<open>A frame that starts with an empty domain under an unassigned slot selects a
  slot with an empty domain, has no candidate to try and returns \<^verbatim>\<open>None\<close>.\<close>

lemma backtrack_empty_domain:
  assumes x: "x \<in> set (variables c)" "map_of a x = None" "map_of d x = Some []"
    and inc: "\<not> assignment_complete c a"
    and run: "backtrack c d a = Inr (r, d', n)"
  shows "r = None \<and> d' = d \<and> n = 1"
proof -
  from run inc obtain var where sel: "select_unassigned_variable c d a = Inr var"
    by (subst (asm) backtrack_unfold) (auto split: sum.splits)
  from select_unassigned_variable_minimum [OF sel x] have "map_of d var = Some []" by simp
  then have "order_domain_values c d var a = Inr []"
    by (simp add: order_domain_values_def getitem_def)
  with run inc sel show ?thesis
    by (subst (asm) backtrack_unfold) simp
qed

lemma enforce_node_consistency_keys: "map fst (enforce_node_consistency d) = map fst d"
  by (simp add: enforce_node_consistency_def case_prod_beta)


text \<open>
  Claim C2, as the code has it. \<^verbatim>\<open>solve\<close> runs node consistency, then \<^verbatim>\<open>ac3\<close>,
  and then calls \<^verbatim>\<open>backtrack\<close> on the empty assignment whatever \<^verbatim>\<open>ac3\<close> returned.
  When \<^verbatim>\<open>ac3\<close> has failed, or when the length of some slot matches no word of its
  domain, that call finds a slot with an empty domain, tries no candidate and
  returns \<^verbatim>\<open>None\<close> from its first frame, the only one entered, leaving the
  domains as \<^verbatim>\<open>ac3\<close> left them. (The slots of the domain map are slots of the
  crossword, as \<^verbatim>\<open>__init__\<close> makes them.)
\<close>

theorem solve_searches_and_fails_on_empty_domain:
  assumes propag: "ac3 c (enforce_node_consistency d) None = Inr (ok, d1, m)"
    and run: "solve c d = Inr (r, d', n)"
    and keys: "fst ` set d \<subseteq> set (variables c)"
    and empty: "\<not> ok \<or> (\<exists>x \<in> set (variables c). \<exists>ws. map_of d x = Some ws \<and>
                  (\<forall>w \<in> set ws. length w \<noteq> var_length x))"
  shows "solve c d = backtrack c d1 [] \<and> r = None \<and> d' = d1 \<and> n = 1"
proof -
  have s: "solve c d = backtrack c d1 []"
    using propag by (simp add: solve_def)
  have nar: "narrows (enforce_node_consistency d) d1"
    using propag by (rule ac3_narrows)
  have "\<exists>x \<in> set (variables c). map_of d1 x = Some []"
  proof (cases ok)
    case False
    with propag have "ac3 c (enforce_node_consistency d) None = Inr (False, d1, m)" by simp
    from ac3_failure [OF this] obtain x where x: "map_of d1 x = Some []" by blast
    then have "x \<in> fst ` set d1" by (metis map_of_eq_None_iff option.distinct(1))
    also have "\<dots> = fst ` set d"
      using nar enforce_node_consistency_keys [of d] unfolding narrows_def
      by (metis set_map)
    finally show ?thesis using keys x by auto
  next
    case True
    with empty obtain x ws where x: "x \<in> set (variables c)" "map_of d x = Some ws"
      "\<forall>w \<in> set ws. length w \<noteq> var_length x" by auto
    then have "map_of (enforce_node_consistency d) x = Some []"
      by (simp add: map_of_enforce_node_consistency filter_empty_conv)
    from narrows_empty [OF nar this] x(1) show ?thesis by auto
  qed
  then obtain x where x: "x \<in> set (variables c)" "map_of d1 x = Some []" by auto
  then have inc: "\<not> assignment_complete c []"
    by (auto simp: assignment_complete_def)
  from run s have "backtrack c d1 [] = Inr (r, d', n)" by simp
  from backtrack_empty_domain [OF x(1) _ x(2) inc this] s show ?thesis by simp
qed

theorem solve_searches_and_fails_on_empty_domain_witness:
  "ac3 cross_aa (enforce_node_consistency (init_domains cross_aa)) None
     = Inr (False, [(corner_across, []), (corner_down, [''aa''])], 1)
   \<and> solve cross_aa (init_domains cross_aa)
       = Inr (None, [(corner_across, []), (corner_down, [''aa''])], 1)
   \<and> fst ` set (init_domains cross_aa) \<subseteq> set (variables cross_aa)
   \<and> solve cross_aa (init_domains cross_aa)
       = backtrack cross_aa [(corner_across, []), (corner_down, [''aa''])] []"
proof -
  have h1: "ac3 cross_aa (enforce_node_consistency (init_domains cross_aa)) None
              = Inr (False, [(corner_across, []), (corner_down, [''aa''])], 1)"
    by code_simp
  have h2: "solve cross_aa (init_domains cross_aa)
              = Inr (None, [(corner_across, []), (corner_down, [''aa''])], 1)"
    by code_simp
  have h3: "fst ` set (init_domains cross_aa) \<subseteq> set (variables cross_aa)"
    by (simp add: init_domains_def cross_aa_def)
  have h4: "\<not> False \<or> (\<exists>x \<in> set (variables cross_aa). \<exists>ws.
              map_of (init_domains cross_aa) x = Some ws \<and>
              (\<forall>w \<in> set ws. length w \<noteq> var_length x))"
    by simp
  from h1 h2 h3 solve_searches_and_fails_on_empty_domain [OF h1 h2 h3 h4] show ?thesis
    by simp
qed

text \<open>
  The claim as the specification words it fails on the single slot of length
  five: node consistency empties its domain, yet \<^verbatim>\<open>ac3\<close> does not fail there, and
  \<^verbatim>\<open>solve\<close> returns \<^verbatim>\<open>None\<close> from inside the search, one frame of \<^verbatim>\<open>backtrack\<close>
  having been entered. On \<open>cross_aa\<close>, where \<^verbatim>\<open>ac3\<close> does fail, \<^verbatim>\<open>backtrack\<close> is
  entered as well.
\<close>

theorem solve_enters_search_counterexample:
  "enforce_node_consistency (init_domains cross_five) = [(slot_five, [])]
   \<and> ac3 cross_five (enforce_node_consistency (init_domains cross_five)) None
       = Inr (True, [(slot_five, [])], 0)
   \<and> solve cross_five (init_domains cross_five) = Inr (None, [(slot_five, [])], 1)
   \<and> ac3 cross_aa (enforce_node_consistency (init_domains cross_aa)) None
       = Inr (False, [(corner_across, []), (corner_down, [''aa''])], 1)
   \<and> solve cross_aa (init_domains cross_aa)
       = Inr (None, [(corner_across, []), (corner_down, [''aa''])], 1)"
  by code_simp

section \<open>Propagation leaves every arc consistent\<close>














section \<open>The order of the candidates\<close>







text \<open>The first frame of the search: after a failed propagation the slot selected
  has an empty domain.\<close>

lemma first_frame_after_propagation:
  assumes "ac3 c d0 None = Inr (ok, d, m)" "fst ` set d0 \<subseteq> set (variables c)"
    and "select_unassigned_variable c d [] = Inr var"
  shows "ok \<or> map_of d var = Some []"
proof (cases ok)
  case True
  then show ?thesis by simp
next
  case False
  with assms(1) have "ac3 c d0 None = Inr (False, d, m)" by simp
  from ac3_failure [OF this] obtain x where x: "map_of d x = Some []" by blast
  then have "x \<in> fst ` set d" by (metis map_of_eq_None_iff option.distinct(1))
  also have "\<dots> = fst ` set d0"
    using ac3_narrows [OF assms(1)] unfolding narrows_def by (metis set_map)
  finally have "x \<in> set (variables c)" using assms(2) by auto
  from select_unassigned_variable_minimum [OF assms(3) this _ x] show ?thesis by simp
qed



text \<open>The numbers on \<open>cross6\<close>: each of the three words takes a candidate from
  both neighbouring domains.\<close>

lemma losing_neighbors_cross6:
  "map (losing_neighbors cross6 domains6 slot_x) [''aca'', ''bcb'', ''bdb''] = [2, 2, 2]"
  by code_simp

section \<open>A returned assignment is valid\<close>

lemma for_values_Some:
  "for_values body vs s = Inr (Some r, s', n) \<Longrightarrow>
     \<exists>v \<in> set vs. \<exists>t t' k. body v t = Inr (Some r, t', k)"
proof (induction vs arbitrary: s n)
  case Nil
  then show ?case by simp
next
  case (Cons v vs)
  show ?case
  proof (cases "body v s")
    case (Inl e)
    with Cons.prems show ?thesis by simp
  next
    case (Inr res)
    obtain r1 s1 n1 where res: "res = (r1, s1, n1)" by (cases res)
    show ?thesis
    proof (cases r1)
      case None
      with Cons.prems Inr res obtain m where "for_values body vs s1 = Inr (Some r, s', m)"
        by (auto split: sum.splits)
      from Cons.IH [OF this] show ?thesis by auto
    next
      case (Some r')
      with Cons.prems Inr res have "body v s = Inr (Some r, s', n)" by simp
      then show ?thesis by auto
    qed
  qed
qed

lemma undo_inference_None: "undo_inference var ivs d n \<noteq> Inr (Some r, d', k)"
  by (auto simp: undo_inference_def split: sum.splits)

lemma try_value_Some:
  assumes "try_value c a var val d0 = Inr (Some r, d', n)"
  shows "consistent c (AList.update var val a) = Inr True
         \<and> (\<exists>d2. backtrack c d2 (AList.update var val a) = Inr (Some r, d', n))"
proof -
  from assms obtain dv where 1: "getitem d0 var = Inr dv"
    by (cases "getitem d0 var") (auto simp: try_value_def)
  from assms 1 obtain ivs d1 where 2: "restrict_loop var val dv d0 [] = Inr (ivs, d1)"
    by (cases "restrict_loop var val dv d0 []") (auto simp: try_value_def)
  from assms 1 2 obtain ok d2 m where 3: "ac3 c d1 None = Inr (ok, d2, m)"
    by (cases "ac3 c d1 None") (auto simp: try_value_def)
  from assms 1 2 3 have ok: ok
    by (auto simp: try_value_def undo_inference_None split: if_splits)
  from assms 1 2 3 ok obtain cons where 4: "consistent c (AList.update var val a) = Inr cons"
    by (cases "consistent c (AList.update var val a)") (auto simp: try_value_def)
  from assms 1 2 3 ok 4 have cons: cons
    by (auto simp: try_value_def undo_inference_None split: if_splits)
  from assms 1 2 3 ok 4 cons
  have "backtrack c d2 (AList.update var val a) = Inr (Some r, d', n)"
    by (auto simp: try_value_def undo_inference_None split: sum.splits option.splits)
  with 4 cons show ?thesis by auto
qed

lemma backtrack_Some:
  "backtrack c d a = Inr (Some r, d', n) \<Longrightarrow>
     assignment_complete c r
     \<and> fst ` set r \<subseteq> fst ` set a \<union> set (variables c)
     \<and> (r = a \<or> consistent c r = Inr True)"
proof (induction "unassigned c a" arbitrary: a d d' n rule: less_induct)
  case less
  show ?case
  proof (cases "assignment_complete c a")
    case True
    with less.prems show ?thesis
      by (subst (asm) backtrack_unfold) auto
  next
    case False
    from less.prems False obtain var where sel: "select_unassigned_variable c d a = Inr var"
      by (subst (asm) backtrack_unfold) (auto split: sum.splits)
    from less.prems False sel obtain vals where ord: "order_domain_values c d var a = Inr vals"
      by (subst (asm) backtrack_unfold) (auto split: sum.splits)
    from less.prems False sel ord obtain d5 k where
      "for_values (try_value c a var) vals d = Inr (Some r, d5, k)"
      by (subst (asm) backtrack_unfold) (auto split: sum.splits)
    from for_values_Some [OF this] obtain val t t' j where
      "try_value c a var val t = Inr (Some r, t', j)" by blast
    from try_value_Some [OF this] obtain d2 where
      cons: "consistent c (AList.update var val a) = Inr True"
      and rec: "backtrack c d2 (AList.update var val a) = Inr (Some r, t', j)" by blast
    from select_unassigned_variable_unassigned [OF sel]
    have var: "var \<in> set (variables c)" "map_of a var = None" by simp_all
    then have "unassigned c (AList.update var val a) < unassigned c a"
      by (rule unassigned_update)
    from less.hyps [OF this rec]
    have "assignment_complete c r"
      "fst ` set r \<subseteq> fst ` set (AList.update var val a) \<union> set (variables c)"
      "r = AList.update var val a \<or> consistent c r = Inr True" by simp_all
    with cons var(1) show ?thesis
      by (auto simp: AList.dom_update)
  qed
qed

lemma consistent_neighbors_True:
  "consistent_neighbors c a key nbs = Inr True \<Longrightarrow> y \<in> set nbs \<Longrightarrow> map_of a y = Some wy \<Longrightarrow>
     \<exists>ox oy wx. map_of (overlaps c) (key, y) = Some (Some (ox, oy)) \<and> map_of a key = Some wx
        \<and> ox < length wx \<and> oy < length wy \<and> wx ! ox = wy ! oy"
proof (induction nbs)
  case Nil
  then show ?case by simp
next
  case (Cons nb nbs)
  show ?case
  proof (cases "map_of a nb = None")
    case True
    with Cons show ?thesis by auto
  next
    case False
    with Cons.prems(1) obtain o0 o1 wk wn where
      f: "map_of (overlaps c) (key, nb) = Some (Some (o0, o1))" "map_of a key = Some wk"
         "map_of a nb = Some wn" "o0 < length wk" "o1 < length wn" "wk ! o0 = wn ! o1"
      and rec: "consistent_neighbors c a key nbs = Inr True"
      by (auto simp: getitem_Inr char_at_def split: sum.splits option.splits if_splits)
    show ?thesis
    proof (cases "y = nb")
      case True
      with f Cons.prems(3) show ?thesis by auto
    next
      case False
      with Cons.prems(2) have "y \<in> set nbs" by simp
      from Cons.IH [OF rec this Cons.prems(3)] show ?thesis .
    qed
  qed
qed

lemma consistent_loop_True:
  "consistent_loop c a keys seen = Inr True \<Longrightarrow>
     (\<forall>key \<in> set keys. \<exists>w. map_of a key = Some w \<and> length w = var_length key \<and> w \<notin> set seen
         \<and> consistent_neighbors c a key (neighbors c key) = Inr True)
     \<and> distinct (map (\<lambda>k. the (map_of a k)) keys)"
proof (induction keys arbitrary: seen)
  case Nil
  then show ?case by simp
next
  case (Cons key keys)
  from Cons.prems obtain w where
    w: "map_of a key = Some w" "length w = var_length key" "w \<notin> set seen"
       "consistent_neighbors c a key (neighbors c key) = Inr True"
    and rec: "consistent_loop c a keys (w # seen) = Inr True"
    by (auto simp: getitem_Inr split: sum.splits if_splits)
  from Cons.IH [OF rec] w show ?case by force
qed

lemma consistent_valid:
  assumes "consistent c a = Inr True"
  shows "distinct (map fst a) \<and> valid_assignment c a"
proof -
  from assms have loop: "consistent_loop c a (map fst a) [] = Inr True"
    by (simp add: consistent_def)
  from consistent_loop_True [OF loop]
  have keys: "\<forall>key \<in> set (map fst a). \<exists>w. map_of a key = Some w \<and> length w = var_length key
         \<and> consistent_neighbors c a key (neighbors c key) = Inr True"
    and dw: "distinct (map (\<lambda>k. the (map_of a k)) (map fst a))" by auto
  from dw have dk: "distinct (map fst a)" by (subst (asm) distinct_map) simp
  then have entry: "map_of a k = Some w" if "(k, w) \<in> set a" for k w
    using that by simp
  have eq: "map (\<lambda>k. the (map_of a k)) (map fst a) = map snd a"
    using entry by (auto simp: map_eq_conv)
  from dw have ds: "distinct (map snd a)" unfolding eq .
  have len: "\<forall>(key, w) \<in> set a. length w = var_length key"
  proof (clarify)
    fix key w assume e: "(key, w) \<in> set a"
    then have "key \<in> set (map fst a)" by force
    with keys entry [OF e] show "length w = var_length key" by auto
  qed
  have ov: "\<forall>(x, wx) \<in> set a. \<forall>(y, wy) \<in> set a. y \<in> set (neighbors c x) \<longrightarrow>
          (\<exists>ox oy. map_of (overlaps c) (x, y) = Some (Some (ox, oy))
             \<and> ox < length wx \<and> oy < length wy \<and> wx ! ox = wy ! oy)"
  proof (clarify)
    fix x wx y wy
    assume ex: "(x, wx) \<in> set a" and ey: "(y, wy) \<in> set a" and nb: "y \<in> set (neighbors c x)"
    from ex have "x \<in> set (map fst a)" by force
    with keys have "consistent_neighbors c a x (neighbors c x) = Inr True" by auto
    from consistent_neighbors_True [OF this nb entry [OF ey]] entry [OF ex]
    show "\<exists>ox oy. map_of (overlaps c) (x, y) = Some (Some (ox, oy))
             \<and> ox < length wx \<and> oy < length wy \<and> wx ! ox = wy ! oy" by auto
  qed
  from dk ds len ov show ?thesis by (simp add: valid_assignment_def)
qed


text \<open>
  Claim C1. An assignment that \<^verbatim>\<open>solve\<close> returns is complete and valid: it gives a
  word to every slot of the crossword, each word has the length of its slot, the
  words are pairwise distinct, and neighbouring slots agree at their overlap.
\<close>

theorem solve_returns_valid_assignment:
  assumes "solve c d = Inr (Some a, d', n)"
  shows "assignment_complete c a \<and> distinct (map fst a)
         \<and> fst ` set a \<subseteq> set (variables c)
         \<and> (distinct (variables c) \<longrightarrow> fst ` set a = set (variables c))
         \<and> valid_assignment c a"
proof -
  from assms obtain d1 where "backtrack c d1 [] = Inr (Some a, d', n)"
    by (auto simp: solve_def split: sum.splits)
  from backtrack_Some [OF this]
  have comp: "assignment_complete c a" and sub: "fst ` set a \<subseteq> set (variables c)"
    and or: "a = [] \<or> consistent c a = Inr True" by auto
  from or have dv: "distinct (map fst a) \<and> valid_assignment c a"
  proof
    assume "a = []"
    then show ?thesis by (simp add: valid_assignment_def)
  next
    assume "consistent c a = Inr True"
    then show ?thesis by (rule consistent_valid)
  qed
  have "fst ` set a = set (variables c)" if dvars: "distinct (variables c)"
  proof -
    have "card (fst ` set a) = length a"
      using dv by (metis distinct_card length_map set_map)
    also have "\<dots> = card (set (variables c))"
      using comp dvars by (simp add: assignment_complete_def distinct_card)
    finally show ?thesis using sub by (simp add: card_subset_eq)
  qed
  with comp sub dv show ?thesis by simp
qed

theorem solve_returns_valid_assignment_witness:
  "solve cross_bcb (init_domains cross_bcb)
     = Inr (Some [(slot_x, ''bcb''), (slot_y, ''bqx''), (slot_z, ''brx'')],
            [(slot_x, [''bcb'']), (slot_y, [''bqx'']), (slot_z, [''brx''])], 4)
   \<and> distinct (variables cross_bcb)
   \<and> fst ` set [(slot_x, ''bcb''), (slot_y, ''bqx''), (slot_z, ''brx'')]
       = set (variables cross_bcb)
   \<and> valid_assignment cross_bcb [(slot_x, ''bcb''), (slot_y, ''bqx''), (slot_z, ''brx'')]"
proof -
  have h: "solve cross_bcb (init_domains cross_bcb)
     = Inr (Some [(slot_x, ''bcb''), (slot_y, ''bqx''), (slot_z, ''brx'')],
            [(slot_x, [''bcb'']), (slot_y, [''bqx'']), (slot_z, [''brx''])], 4)"
    by code_simp
  have dv: "distinct (variables cross_bcb)"
    by (simp add: cross_bcb_def slot_x_def slot_y_def slot_z_def)
  from h dv solve_returns_valid_assignment [OF h] show ?thesis
    by blast
qed

end
